theory Spec2Isabelle
  imports Complex_Main
begin

section \<open>Exceptions\<close>

text \<open>
  Two families of exceptions occur in \<^verbatim>\<open>rmssd.cpp\<close>: the repository's own
  \<^verbatim>\<open>InvalidArgument\<close> (a message string, \<^verbatim>\<open>InvalidArgument.h\<close>), and the standard
  library's \<^verbatim>\<open>std::invalid_argument\<close> and \<^verbatim>\<open>std::out_of_range\<close>, which
  \<^verbatim>\<open>std::stof\<close>, \<^verbatim>\<open>std::stod\<close> and \<^verbatim>\<open>std::stold\<close> throw. \<^verbatim>\<open>InvalidArgument\<close> derives
  from \<^verbatim>\<open>std::exception\<close> only, so the two families are unrelated classes.
  \<^verbatim>\<open>InvalidArgument::what()\<close> returns the stored message.
\<close>

datatype std_error = invalid_argument | out_of_range

datatype exn = InvalidArgument string | StdException std_error

section \<open>Floating-point representations\<close>

text \<open>
  The templates of \<^verbatim>\<open>rmssd.cpp\<close> are instantiated at \<^verbatim>\<open>float\<close>, \<^verbatim>\<open>double\<close> and
  \<^verbatim>\<open>long double\<close>. The arithmetic of a type \<^verbatim>\<open>T\<close> is not code of the repository (it is
  the compiler's and the C library's), so it is a parameter: a record of the operations
  the templates apply to values of type \<^verbatim>\<open>T\<close>. All three types share one carrier \<open>'a\<close>
  of values.

  \<^item> \<open>stringToFP\<close>: the specialisation of \<^verbatim>\<open>stringToFP<T>\<close> (lines 41 to 54);
  \<^item> \<open>squareroot\<close>: the specialisation of \<^verbatim>\<open>squareroot<T>\<close> (lines 21 to 34);
  \<^item> \<open>fadd\<close>, \<open>fsub\<close>, \<open>fmul\<close>, \<open>fdiv\<close>: \<^verbatim>\<open>+\<close>, \<^verbatim>\<open>-\<close>, \<^verbatim>\<open>*\<close>, \<^verbatim>\<open>/\<close> on two \<^verbatim>\<open>T\<close>;
  \<^item> \<open>fround\<close>: the overload of \<^verbatim>\<open>round\<close> that takes a \<^verbatim>\<open>T\<close>;
  \<^item> \<open>of_double\<close>: \<^verbatim>\<open>static_cast<T>\<close> of a \<^verbatim>\<open>double\<close>;
  \<^item> \<open>of_size\<close>: \<^verbatim>\<open>static_cast<T>\<close> of a \<^verbatim>\<open>size_t\<close>;
  \<^item> \<open>sizeof\<close>: \<^verbatim>\<open>sizeof(T)\<close>.
\<close>

datatype repr = Float | Double | LongDouble

record 'a arith =
  stringToFP :: "string \<Rightarrow> std_error + 'a"
  squareroot :: "'a \<Rightarrow> 'a"
  fadd :: "'a \<Rightarrow> 'a \<Rightarrow> 'a"
  fsub :: "'a \<Rightarrow> 'a \<Rightarrow> 'a"
  fmul :: "'a \<Rightarrow> 'a \<Rightarrow> 'a"
  fdiv :: "'a \<Rightarrow> 'a \<Rightarrow> 'a"
  fround :: "'a \<Rightarrow> 'a"
  of_double :: "'a \<Rightarrow> 'a"
  of_size :: "nat \<Rightarrow> 'a"
  sizeof :: nat

text \<open>
  A platform gives the arithmetic of each of the three types, and what the source
  computes in \<^verbatim>\<open>double\<close> whatever \<^verbatim>\<open>T\<close> is: the literals \<^verbatim>\<open>0.0\<close> and \<^verbatim>\<open>10.0\<close>, and
  \<^verbatim>\<open>std::pow\<close> of a \<^verbatim>\<open>double\<close> and an \<^verbatim>\<open>int\<close>, whose result is a \<^verbatim>\<open>double\<close>.
\<close>

record 'a platform =
  fp :: "repr \<Rightarrow> 'a arith"
  lit_0_0 :: 'a
  lit_10_0 :: 'a
  std_pow :: "'a \<Rightarrow> int \<Rightarrow> 'a"

section \<open>The data file\<close>

text \<open>
  The file system maps a path to the lines \<^verbatim>\<open>std::getline\<close> reads from the file, or to
  \<open>None\<close> when the file cannot be opened.
\<close>

type_synonym files = "string \<Rightarrow> string list option"

text \<open>
  The messages of the two \<^verbatim>\<open>InvalidArgument\<close> exceptions. \<^verbatim>\<open>__FILE__\<close> is the path the
  compiler was given, taken to be \<^verbatim>\<open>rmssd.cpp\<close>; \<^verbatim>\<open>__LINE__\<close> stands on lines 71 and
  108 of the source.
\<close>

definition FILE_macro :: string where
  "FILE_macro = ''rmssd.cpp''"

definition could_not_open :: "string \<Rightarrow> string" where
  "could_not_open dataFilePath =
     FILE_macro @ '':'' @ ''71'' @ '' : could not open data file '' @ dataFilePath"

definition too_few :: string where
  "too_few = FILE_macro @ '':'' @ ''108'' @ '' : too few RR intervals to calculate RMSSD''"

section \<open>loadIntervals\<close>

text \<open>
  Lines 81 to 85: the rounding of one parsed value. The multiplier is
  \<^verbatim>\<open>static_cast<T>(std::pow(10.0, roundTo))\<close>: the power is taken in \<^verbatim>\<open>double\<close> and the
  result converted to \<^verbatim>\<open>T\<close>. \<^verbatim>\<open>roundTo\<close> is an \<^verbatim>\<open>int\<close>; the source compares it with zero
  and passes it to \<^verbatim>\<open>std::pow\<close>, and computes nothing with it, so it is an integer here.
\<close>

definition round_num :: "'a platform \<Rightarrow> repr \<Rightarrow> int \<Rightarrow> 'a \<Rightarrow> 'a" where
  "round_num P R roundTo num =
     (if roundTo \<ge> 0 then
        let multiplier = of_double (fp P R) (std_pow P (lit_10_0 P) roundTo)
        in fdiv (fp P R) (fround (fp P R) (fmul (fp P R) num multiplier)) multiplier
      else num)"

text \<open>
  Lines 76 to 88: the \<^verbatim>\<open>while (std::getline(infile, numString))\<close> loop. An exception of
  \<^verbatim>\<open>stringToFP\<close> leaves the loop and the function.
\<close>

fun getline_loop ::
  "'a platform \<Rightarrow> repr \<Rightarrow> int \<Rightarrow> string list \<Rightarrow> 'a list \<Rightarrow> exn + 'a list" where
  "getline_loop P R roundTo [] intervals = Inr intervals"
| "getline_loop P R roundTo (numString # rest) intervals =
     (case stringToFP (fp P R) numString of
        Inl e \<Rightarrow> Inl (StdException e)
      | Inr num \<Rightarrow> getline_loop P R roundTo rest (intervals @ [round_num P R roundTo num]))"

definition loadIntervals ::
  "'a platform \<Rightarrow> repr \<Rightarrow> files \<Rightarrow> string \<Rightarrow> int \<Rightarrow> exn + 'a list" where
  "loadIntervals P R fs dataFilePath roundTo =
     (case fs dataFilePath of
        None \<Rightarrow> Inl (InvalidArgument (could_not_open dataFilePath))
      | Some file_lines \<Rightarrow> getline_loop P R roundTo file_lines [])"

section \<open>calculateRMSSD\<close>

text \<open>What the program writes: to \<^verbatim>\<open>std::cout\<close> and to \<^verbatim>\<open>std::cerr\<close>, in order.\<close>

datatype 'a out =
  Cout_str string | Cout_size nat | Cout_fp 'a | Cout_endl | Cerr_str string | Cerr_endl

text \<open>
  The variables \<^verbatim>\<open>diffs\<close> and \<^verbatim>\<open>sum\<close> of the source are written \<open>diffs'\<close> and \<open>dsum\<close> (both names are constants of HOL).

  Lines 124 to 134: the loop over \<^verbatim>\<open>intervals\<close>. \<^verbatim>\<open>prev\<close> is declared without a value
  and assigned at the end of every iteration, so it is \<open>None\<close> exactly in the iteration
  where \<^verbatim>\<open>it == begin(intervals)\<close>, the one that pushes no difference.
\<close>

fun diffs_loop :: "'a arith \<Rightarrow> 'a option \<Rightarrow> 'a list \<Rightarrow> 'a list \<Rightarrow> 'a list" where
  "diffs_loop A prev [] diffs' = diffs'"
| "diffs_loop A prev (x # rest) diffs' =
     diffs_loop A (Some x) rest
       (case prev of None \<Rightarrow> diffs' | Some p \<Rightarrow> diffs' @ [fsub A x p])"

text \<open>Lines 137 to 140: \<^verbatim>\<open>diff *= diff\<close> for each element, in place.\<close>

fun square_loop :: "'a arith \<Rightarrow> 'a list \<Rightarrow> 'a list" where
  "square_loop A [] = []"
| "square_loop A (diff # rest) = fmul A diff diff # square_loop A rest"

text \<open>Lines 145 to 148: \<^verbatim>\<open>sum += diff\<close> for each element.\<close>

fun sum_loop :: "'a arith \<Rightarrow> 'a \<Rightarrow> 'a list \<Rightarrow> 'a" where
  "sum_loop A dsum [] = dsum"
| "sum_loop A dsum (diff # rest) = sum_loop A (fadd A dsum diff) rest"

text \<open>
  Lines 100 to 155. The result is what the call writes to \<^verbatim>\<open>std::cout\<close> and either the
  exception it throws or the value it returns.
\<close>

definition calculateRMSSD ::
  "'a platform \<Rightarrow> repr \<Rightarrow> files \<Rightarrow> string \<Rightarrow> int \<Rightarrow> 'a out list \<times> (exn + 'a)" where
  "calculateRMSSD P R fs dataFilePath roundTo =
     (case loadIntervals P R fs dataFilePath roundTo of
        Inl e \<Rightarrow> ([], Inl e)
      | Inr intervals \<Rightarrow>
          if length intervals < 2 then ([], Inl (InvalidArgument too_few))
          else
            let A = fp P R;
                diffs' = diffs_loop A None intervals [];
                diffs' = square_loop A diffs';
                dsum = sum_loop A (of_double A (lit_0_0 P)) diffs';
                mean = fdiv A dsum (of_size A (length diffs'));
                root = squareroot A mean
            in ([Cout_size (sizeof A * 8), Cout_str ''-bit float'', Cout_endl], Inr root))"

section \<open>main\<close>

definition dataFilePath :: string where
  "dataFilePath = ''test/RRIntervals_P7D1_Baseline.txt''"

text \<open>
  The six statements of the \<^verbatim>\<open>try\<close> block (lines 172 to 194), in order: the label
  written first, the type \<^verbatim>\<open>T\<close> and the \<^verbatim>\<open>roundTo\<close> argument (\<open>-1\<close> is the default).
\<close>

type_synonym combination = "string \<times> repr \<times> int"

definition combinations :: "combination list" where
  "combinations =
     [(''float'', Float, -1),
      (''double'', Double, -1),
      (''long double'', LongDouble, -1),
      (''float (rounded to 3 decimal places)'', Float, 3),
      (''double (rounded to 3 decimal places)'', Double, 3),
      (''long double (rounded to 3 decimal places)'', LongDouble, 3)]"

text \<open>
  The \<^verbatim>\<open>try\<close> block runs its statements in order; the first exception leaves the block,
  with what was written so far.
\<close>

fun try_block ::
  "'a platform \<Rightarrow> files \<Rightarrow> combination list \<Rightarrow> 'a out list \<times> exn option" where
  "try_block P fs [] = ([], None)"
| "try_block P fs ((label, R, roundTo) # rest) =
     (case calculateRMSSD P R fs dataFilePath roundTo of
        (written, Inl e) \<Rightarrow> ([Cout_str label, Cout_endl] @ written, Some e)
      | (written, Inr rmssd) \<Rightarrow>
          (case try_block P fs rest of
             (later, r) \<Rightarrow>
               ([Cout_str label, Cout_endl] @ written @ [Cout_fp rmssd, Cout_endl, Cout_endl]
                  @ later, r)))"

text \<open>
  How \<^verbatim>\<open>main\<close> ends: it returns \<^verbatim>\<open>EXIT_SUCCESS\<close>, or an exception that no handler
  catches leaves it (\<^verbatim>\<open>std::terminate\<close>). The only handler is
  \<^verbatim>\<open>catch (InvalidArgument &e)\<close>.
\<close>

datatype ending = Returned nat | Uncaught std_error

definition EXIT_SUCCESS :: nat where
  "EXIT_SUCCESS = 0"

definition press_enter :: "'a out list" where
  "press_enter = [Cout_str ''Press <enter> to exit'', Cout_endl]"

definition rmssd_main :: "'a platform \<Rightarrow> files \<Rightarrow> 'a out list \<times> ending" where
  "rmssd_main P fs =
     (case try_block P fs combinations of
        (written, None) \<Rightarrow> (written @ press_enter, Returned EXIT_SUCCESS)
      | (written, Some (InvalidArgument errMsg)) \<Rightarrow>
          (written @ [Cerr_str (''ERROR: '' @ errMsg), Cerr_endl] @ press_enter,
           Returned EXIT_SUCCESS)
      | (written, Some (StdException e)) \<Rightarrow> (written, Uncaught e))"

section \<open>Two platforms\<close>

text \<open>
  The theorems below hold for every platform. Two platforms are defined here to run the
  program on concrete inputs.
\<close>

subsection \<open>Reading a decimal literal\<close>

text \<open>
  \<^verbatim>\<open>strtof\<close>, \<^verbatim>\<open>strtod\<close> and \<^verbatim>\<open>strtold\<close> skip white space, then read the longest
  prefix that is a number and ignore what follows it; \<^verbatim>\<open>std::stof\<close> and its
  siblings throw \<^verbatim>\<open>std::invalid_argument\<close> when there is no such prefix.
  \<open>parse_decimal\<close> is this for decimal literals: an optional sign, digits with an
  optional fraction, an optional exponent. It gives the exact rational value.
  Hexadecimal literals, \<^verbatim>\<open>inf\<close> and \<^verbatim>\<open>nan\<close> are not read.
\<close>

definition isspace :: "char \<Rightarrow> bool" where
  "isspace c = (c \<in> set [CHR '' '', CHR 0x09, CHR 0x0A, CHR 0x0B, CHR 0x0C, CHR 0x0D])"

definition digit_of :: "char \<Rightarrow> int option" where
  "digit_of = map_of
     [(CHR ''0'', 0), (CHR ''1'', 1), (CHR ''2'', 2), (CHR ''3'', 3), (CHR ''4'', 4),
      (CHR ''5'', 5), (CHR ''6'', 6), (CHR ''7'', 7), (CHR ''8'', 8), (CHR ''9'', 9)]"

fun read_digits :: "string \<Rightarrow> int \<Rightarrow> nat \<Rightarrow> int \<times> nat \<times> string" where
  "read_digits [] v k = (v, k, [])"
| "read_digits (c # cs) v k =
     (case digit_of c of None \<Rightarrow> (v, k, c # cs) | Some d \<Rightarrow> read_digits cs (10 * v + d) (Suc k))"

definition int_pow :: "rat \<Rightarrow> int \<Rightarrow> rat" where
  "int_pow x n = (if 0 \<le> n then x ^ nat n else 1 / x ^ nat (- n))"

definition parse_decimal :: "string \<Rightarrow> rat option" where
  "parse_decimal s =
     (let s1 = dropWhile isspace s;
          (neg, s2) = (case s1 of [] \<Rightarrow> (False, s1)
                       | c # r \<Rightarrow> if c = CHR ''-'' then (True, r)
                                  else if c = CHR ''+'' then (False, r) else (False, s1));
          (ip, ik, s3) = read_digits s2 0 0;
          (fv, fk, s4) = (case s3 of [] \<Rightarrow> (0, 0, s3)
                          | c # r \<Rightarrow> if c = CHR ''.'' then read_digits r 0 0 else (0, 0, s3));
          ex = (case s4 of [] \<Rightarrow> 0
                | c # r \<Rightarrow>
                    if c = CHR ''e'' \<or> c = CHR ''E'' then
                      (case r of [] \<Rightarrow> 0
                       | d # r' \<Rightarrow>
                           if d = CHR ''-'' then
                             (case read_digits r' 0 0 of (ev, ek, _) \<Rightarrow> - ev)
                           else if d = CHR ''+'' then
                             (case read_digits r' 0 0 of (ev, ek, _) \<Rightarrow> ev)
                           else (case read_digits r 0 0 of (ev, ek, _) \<Rightarrow> ev))
                    else 0)
      in if ik + fk = 0 then None
         else Some ((if neg then - 1 else 1) * (of_int ip + of_int fv / 10 ^ fk)
                    * int_pow 10 ex))"

text \<open>
  \<^verbatim>\<open>round\<close> of the C library: to the nearest integer, halfway cases away from zero.
\<close>

definition c_round :: "rat \<Rightarrow> rat" where
  "c_round x = (if 0 \<le> x then of_int \<lfloor>x + 1 / 2\<rfloor> else - of_int \<lfloor>- x + 1 / 2\<rfloor>)"

definition c_round_real :: "real \<Rightarrow> real" where
  "c_round_real x = (if 0 \<le> x then of_int \<lfloor>x + 1 / 2\<rfloor> else - of_int \<lfloor>- x + 1 / 2\<rfloor>)"

subsection \<open>Binary floating point with round to nearest, ties to even\<close>

text \<open>
  The values are rationals. \<open>rn p x\<close> is the nearest value with \<open>p\<close> significant bits
  to \<open>x\<close>, ties to the even significand: what an IEEE 754 operation in the default
  rounding mode returns for the exact result \<open>x\<close>, as long as \<open>x\<close> is in the normal
  range of the format. There are no infinities, no NaN and no subnormal numbers here, so
  the platform below is the machine's arithmetic only where every intermediate value
  stays in the normal range.

  \<open>bit_length n\<close> is the number of binary digits of \<open>n\<close>, and \<open>ilog2 x\<close> the
  integer part of the binary logarithm of a positive \<open>x\<close>.
\<close>

function bit_length :: "int \<Rightarrow> int" where
  "bit_length n = (if n \<le> 0 then 0 else 1 + bit_length (n div 2))"
  by pat_completeness auto
termination
  by (relation "measure nat") auto

declare bit_length.simps [simp del]

definition ilog2 :: "rat \<Rightarrow> int" where
  "ilog2 x = (if 1 \<le> x then bit_length \<lfloor>x\<rfloor> - 1 else - bit_length (\<lceil>1 / x\<rceil> - 1))"

definition rne :: "rat \<Rightarrow> int" where
  "rne x = (let f = \<lfloor>x\<rfloor>; d = x - of_int f
            in if d < 1 / 2 then f else if 1 / 2 < d then f + 1
               else if even f then f else f + 1)"

definition rn :: "nat \<Rightarrow> rat \<Rightarrow> rat" where
  "rn p x = (if x = 0 then 0
             else let e = ilog2 \<bar>x\<bar> - (int p - 1)
                  in of_int (rne (x / int_pow 2 e)) * int_pow 2 e)"



text \<open>
  The square root, correctly rounded: \<open>isqrt\<close> is the integer square root, taken of the
  argument scaled by a power of four to \<open>2 * p\<close> or \<open>2 * p - 1\<close> bits.
\<close>

function isqrt :: "int \<Rightarrow> int" where
  "isqrt n = (if n < 2 then n
              else let r = 2 * isqrt (n div 4) in if (r + 1) * (r + 1) \<le> n then r + 1 else r)"
  by pat_completeness auto
termination
  by (relation "measure nat") auto

declare isqrt.simps [simp del]

definition rn_sqrt :: "nat \<Rightarrow> rat \<Rightarrow> rat" where
  "rn_sqrt p x =
     (if x \<le> 0 then 0
      else let j = (ilog2 x - (2 * int p - 2)) div 2;
               s = x / int_pow 4 j;
               n = isqrt \<lfloor>s\<rfloor>;
               h = of_int (n * n + n) + 1 / 4
           in of_int (if s < h then n else if h < s then n + 1
                      else if even n then n else n + 1) * int_pow 2 j)"

text \<open>
  The arithmetic of a format with \<open>p\<close> significant bits and largest exponent \<open>emax\<close>.
  \<^verbatim>\<open>std::stof\<close> and its siblings throw \<^verbatim>\<open>std::out_of_range\<close> when the C function
  reports \<^verbatim>\<open>ERANGE\<close>: here, when the rounded value is beyond the largest finite number
  (its binary exponent exceeds \<open>emax\<close>) or below the smallest normal number (its binary
  exponent is less than \<open>1 - emax\<close>). The result of \<^verbatim>\<open>round\<close> is exact.
\<close>

definition ieee_arith :: "nat \<Rightarrow> nat \<Rightarrow> nat \<Rightarrow> rat arith" where
  "ieee_arith p emax sz =
     \<lparr> stringToFP = (\<lambda>s. case parse_decimal s of
                          None \<Rightarrow> Inl invalid_argument
                        | Some x \<Rightarrow>
                            if x \<noteq> 0 \<and> (int emax < ilog2 \<bar>rn p x\<bar>
                                         \<or> ilog2 \<bar>rn p x\<bar> < 1 - int emax)
                            then Inl out_of_range else Inr (rn p x)),
       squareroot = rn_sqrt p,
       fadd = (\<lambda>a b. rn p (a + b)),
       fsub = (\<lambda>a b. rn p (a - b)),
       fmul = (\<lambda>a b. rn p (a * b)),
       fdiv = (\<lambda>a b. rn p (a / b)),
       fround = c_round,
       of_double = rn p,
       of_size = (\<lambda>n. rn p (of_nat n)),
       sizeof = sz \<rparr>"

text \<open>
  \<^verbatim>\<open>float\<close> is binary32, \<^verbatim>\<open>double\<close> is binary64, \<^verbatim>\<open>long double\<close> is the x87 extended
  format (64 significant bits, 16 bytes on x86-64). \<open>std_pow\<close> is the power rounded to
  the nearest \<^verbatim>\<open>double\<close>. The C library's \<^verbatim>\<open>pow\<close> is accurate to less than one unit in
  the last place and not always correctly rounded: it returns this value where the power
  is a \<^verbatim>\<open>double\<close> (\<open>10\<^sup>N\<close> up to \<open>N = 22\<close>) and for \<open>10\<^sup>2\<^sup>4\<close>, but for \<open>10\<^sup>2\<^sup>3\<close>, which is
  halfway between two \<^verbatim>\<open>double\<close>s, it returns the upper neighbour and \<open>std_pow\<close> the
  lower one. The platform is used below with \<open>N = 3\<close> and \<open>N = 24\<close> only.
\<close>

definition ieee_platform :: "rat platform" where
  "ieee_platform =
     \<lparr> fp = (\<lambda>R. case R of Float \<Rightarrow> ieee_arith 24 127 4
                     | Double \<Rightarrow> ieee_arith 53 1023 8
                     | LongDouble \<Rightarrow> ieee_arith 64 16383 16),
       lit_0_0 = 0,
       lit_10_0 = 10,
       std_pow = (\<lambda>x n. rn 53 (int_pow x n)) \<rparr>"

text \<open>
  The same platform, except that the power is rounded to the 64 significant bits of
  \<^verbatim>\<open>long double\<close>, as \<^verbatim>\<open>powl\<close> would return it. The arithmetic of the three types is
  unchanged.
\<close>

definition ieee_platform_powl :: "rat platform" where
  "ieee_platform_powl = ieee_platform\<lparr>std_pow := (\<lambda>x n. rn 64 (int_pow x n))\<rparr>"

text \<open>
  A platform that shares the \<^verbatim>\<open>long double\<close> arithmetic only: \<^verbatim>\<open>float\<close> and \<^verbatim>\<open>double\<close>
  have 11 significant bits (binary16), and the power is rounded to 64 bits.
\<close>

definition ieee_platform_narrow :: "rat platform" where
  "ieee_platform_narrow =
     \<lparr> fp = (\<lambda>R. case R of Float \<Rightarrow> ieee_arith 11 15 2
                     | Double \<Rightarrow> ieee_arith 11 15 2
                     | LongDouble \<Rightarrow> ieee_arith 64 16383 16),
       lit_0_0 = 0,
       lit_10_0 = 10,
       std_pow = (\<lambda>x n. rn 64 (int_pow x n)) \<rparr>"

subsection \<open>Exact arithmetic\<close>

text \<open>
  The platform of the real numbers: every operation is exact, every conversion is the
  identity, and the three types differ in \<^verbatim>\<open>sizeof\<close> only.
\<close>

definition exact_arith :: "nat \<Rightarrow> real arith" where
  "exact_arith sz =
     \<lparr> stringToFP = (\<lambda>s. case parse_decimal s of
                          None \<Rightarrow> Inl invalid_argument
                        | Some x \<Rightarrow> Inr (of_rat x)),
       squareroot = sqrt,
       fadd = (\<lambda>a b. a + b),
       fsub = (\<lambda>a b. a - b),
       fmul = (\<lambda>a b. a * b),
       fdiv = (\<lambda>a b. a / b),
       fround = c_round_real,
       of_double = (\<lambda>x. x),
       of_size = of_nat,
       sizeof = sz \<rparr>"

definition exact_platform :: "real platform" where
  "exact_platform =
     \<lparr> fp = (\<lambda>R. case R of Float \<Rightarrow> exact_arith 4 | Double \<Rightarrow> exact_arith 8
                     | LongDouble \<Rightarrow> exact_arith 16),
       lit_0_0 = 0,
       lit_10_0 = 10,
       std_pow = (\<lambda>x n. if 0 \<le> n then x ^ nat n else 1 / x ^ nat (- n)) \<rparr>"

section \<open>The loops, as list functions\<close>

text \<open>
  When every line parses, the loop of \<^verbatim>\<open>loadIntervals\<close> appends one rounded value
  per line, in the order of the lines; it returns a sequence only in that case; and a
  line that does not parse makes it throw.
\<close>

lemma getline_loop_parsed:
  "map (stringToFP (fp P R)) file_lines = map Inr nums \<Longrightarrow>
   getline_loop P R roundTo file_lines intervals
     = Inr (intervals @ map (round_num P R roundTo) nums)"
proof (induction file_lines arbitrary: intervals nums)
  case Nil
  then show ?case by simp
next
  case (Cons numString rest)
  then obtain num nums' where nums: "nums = num # nums'"
    by (cases nums) auto
  with Cons.prems have "stringToFP (fp P R) numString = Inr num"
    and "map (stringToFP (fp P R)) rest = map Inr nums'"
    by simp_all
  with Cons.IH [of nums'] nums show ?case
    by simp
qed

lemma getline_loop_Inr:
  "getline_loop P R roundTo file_lines intervals = Inr s \<Longrightarrow>
   \<exists>nums. map (stringToFP (fp P R)) file_lines = map Inr nums
        \<and> s = intervals @ map (round_num P R roundTo) nums"
proof (induction file_lines arbitrary: intervals)
  case Nil
  then show ?case by simp
next
  case (Cons numString rest)
  then obtain num where num: "stringToFP (fp P R) numString = Inr num"
    by (cases "stringToFP (fp P R) numString") auto
  with Cons.prems have
    "getline_loop P R roundTo rest (intervals @ [round_num P R roundTo num]) = Inr s"
    by simp
  from Cons.IH [OF this] obtain nums where
    "map (stringToFP (fp P R)) rest = map Inr nums"
    "s = (intervals @ [round_num P R roundTo num]) @ map (round_num P R roundTo) nums"
    by blast
  with num have "map (stringToFP (fp P R)) (numString # rest) = map Inr (num # nums)
    \<and> s = intervals @ map (round_num P R roundTo) (num # nums)"
    by simp
  then show ?case by blast
qed

lemma getline_loop_malformed:
  "stringToFP (fp P R) l = Inl e \<Longrightarrow> l \<in> set file_lines \<Longrightarrow>
   \<exists>e'. getline_loop P R roundTo file_lines intervals = Inl (StdException e')"
proof (induction file_lines arbitrary: intervals)
  case Nil
  then show ?case by simp
next
  case (Cons numString rest)
  show ?case
  proof (cases "stringToFP (fp P R) numString")
    case (Inl e0)
    then show ?thesis by simp
  next
    case (Inr num)
    with Cons.prems have "l \<in> set rest" by auto
    with Cons.IH Cons.prems(1) Inr show ?thesis by simp
  qed
qed

text \<open>
  The three loops of \<^verbatim>\<open>calculateRMSSD\<close>: the differences of neighbours, the
  squares, and the sum accumulated from the left.
\<close>

lemma diffs_loop_Some:
  "diffs_loop A (Some p) xs acc = acc @ map (\<lambda>(a, b). fsub A b a) (zip (p # xs) xs)"
  by (induction xs arbitrary: p acc) simp_all

lemma successive_pairs_nth:
  "map (\<lambda>(a, b). fsub A b a) (zip s (tl s)) = map (\<lambda>i. fsub A (s ! i) (s ! (i - 1))) [1..<length s]"
proof (rule nth_equalityI)
  show "length (map (\<lambda>(a, b). fsub A b a) (zip s (tl s)))
      = length (map (\<lambda>i. fsub A (s ! i) (s ! (i - 1))) [1..<length s])"
    by simp
next
  fix i
  assume "i < length (map (\<lambda>(a, b). fsub A b a) (zip s (tl s)))"
  then have i: "i < length s - 1"
    by simp
  then have "tl s ! i = s ! Suc i"
    by (simp add: nth_tl)
  with i show "map (\<lambda>(a, b). fsub A b a) (zip s (tl s)) ! i
      = map (\<lambda>i. fsub A (s ! i) (s ! (i - 1))) [1..<length s] ! i"
    by simp
qed

lemma diffs_loop_None:
  "diffs_loop A None s [] = map (\<lambda>i. fsub A (s ! i) (s ! (i - 1))) [1..<length s]"
proof (cases s)
  case Nil
  then show ?thesis by simp
next
  case (Cons x xs)
  then show ?thesis
    using diffs_loop_Some [of A x xs "[]"] successive_pairs_nth [of A s] by simp
qed

lemma square_loop_map: "square_loop A ds = map (\<lambda>d. fmul A d d) ds"
  by (induction ds) simp_all

lemma sum_loop_foldl: "sum_loop A acc ds = foldl (fadd A) acc ds"
  by (induction ds arbitrary: acc) simp_all

lemma calculateRMSSD_Inr:
  assumes "loadIntervals P R fs path roundTo = Inr s" and "2 \<le> length s"
  shows "calculateRMSSD P R fs path roundTo =
    ([Cout_size (sizeof (fp P R) * 8), Cout_str ''-bit float'', Cout_endl],
     Inr (squareroot (fp P R)
       (fdiv (fp P R)
          (foldl (fadd (fp P R)) (of_double (fp P R) (lit_0_0 P))
             (map (\<lambda>d. fmul (fp P R) d d)
                (map (\<lambda>i. fsub (fp P R) (s ! i) (s ! (i - 1))) [1..<length s])))
          (of_size (fp P R) (length s - 1)))))"
  using assms
  by (simp add: calculateRMSSD_def Let_def diffs_loop_None square_loop_map sum_loop_foldl)

text \<open>
  A property that holds of the squared differences and of the zero the sum starts
  from, and that addition, division by the count and the square root preserve, holds of
  the result.
\<close>

lemma foldl_invariant:
  assumes "Q acc" and "\<forall>d\<in>set ds. Q d" and "\<And>a b. Q a \<Longrightarrow> Q b \<Longrightarrow> Q (f a b)"
  shows "Q (foldl f acc ds)"
  using assms(1,2)
proof (induction ds arbitrary: acc)
  case Nil
  then show ?case by simp
next
  case (Cons d ds)
  from Cons.prems have "Q (f acc d)"
    by (simp add: assms(3))
  with Cons show ?case
    by simp
qed

lemma rmssd_invariant:
  assumes load: "loadIntervals P R fs path roundTo = Inr s"
    and len: "2 \<le> length s"
    and squares: "\<forall>i. 0 < i \<and> i < length s \<longrightarrow>
        Q (fmul (fp P R) (fsub (fp P R) (s ! i) (s ! (i - 1))) (fsub (fp P R) (s ! i) (s ! (i - 1))))"
    and zero: "Q (of_double (fp P R) (lit_0_0 P))"
    and add: "\<And>a b. Q a \<Longrightarrow> Q b \<Longrightarrow> Q (fadd (fp P R) a b)"
    and div: "\<And>a n. Q a \<Longrightarrow> 0 < n \<Longrightarrow> Q (fdiv (fp P R) a (of_size (fp P R) n))"
    and root: "\<And>a. Q a \<Longrightarrow> Q (squareroot (fp P R) a)"
  shows "\<exists>r. snd (calculateRMSSD P R fs path roundTo) = Inr r \<and> Q r"
proof -
  let ?A = "fp P R"
  let ?sq = "map (\<lambda>d. fmul ?A d d) (map (\<lambda>i. fsub ?A (s ! i) (s ! (i - 1))) [1..<length s])"
  have "\<forall>d\<in>set ?sq. Q d"
    using squares by auto
  with zero have "Q (foldl (fadd ?A) (of_double ?A (lit_0_0 P)) ?sq)"
    by (rule foldl_invariant) (rule add)
  moreover from len have "0 < length s - 1"
    by simp
  ultimately have "Q (squareroot ?A (fdiv ?A (foldl (fadd ?A) (of_double ?A (lit_0_0 P)) ?sq)
      (of_size ?A (length s - 1))))"
    by (intro root div)
  with calculateRMSSD_Inr [OF load len] show ?thesis
    by simp
qed

text \<open>
  The two platforms, field by field.
\<close>

lemmas exact_eval = exact_platform_def exact_arith_def parse_decimal_def digit_of_def
  isspace_def int_pow_def round_num_def loadIntervals_def

lemma exact_sel:
  "squareroot (fp exact_platform R) = sqrt"
  "fadd (fp exact_platform R) = (+)"
  "fsub (fp exact_platform R) = (-)"
  "fmul (fp exact_platform R) = (*)"
  "fdiv (fp exact_platform R) = (/)"
  "fround (fp exact_platform R) = c_round_real"
  "of_double (fp exact_platform R) = (\<lambda>x. x)"
  "of_size (fp exact_platform R) = of_nat"
  "lit_0_0 exact_platform = 0"
  "lit_10_0 exact_platform = 10"
  "std_pow exact_platform = (\<lambda>x n. if 0 \<le> n then x ^ nat n else 1 / x ^ nat (- n))"
  by (cases R; simp add: exact_platform_def exact_arith_def)+

lemma ieee_sel:
  "squareroot (fp ieee_platform Float) = rn_sqrt 24"
  "fadd (fp ieee_platform Float) = (\<lambda>a b. rn 24 (a + b))"
  "fsub (fp ieee_platform Float) = (\<lambda>a b. rn 24 (a - b))"
  "fmul (fp ieee_platform Float) = (\<lambda>a b. rn 24 (a * b))"
  "fdiv (fp ieee_platform Float) = (\<lambda>a b. rn 24 (a / b))"
  "of_double (fp ieee_platform Float) = rn 24"
  "lit_0_0 ieee_platform = 0"
  by (simp_all add: ieee_platform_def ieee_arith_def)

lemma scenario_load:
  "loadIntervals exact_platform Double (\<lambda>_. Some [''1000'', ''1020'', ''1000'', ''1050'']) ''rr'' (- 1)
     = Inr [1000, 1020, 1000, 1050]"
  by (simp add: exact_eval)

text \<open>
  Rounding to \<open>p\<close> bits and the rounded square root keep the sign: the sign laws of
  IEEE 754 hold on the binary platform.
\<close>

lemma int_pow_two_pos: "0 < int_pow 2 e"
  by (simp add: int_pow_def)

lemma rne_nonneg: "0 \<le> x \<Longrightarrow> 0 \<le> rne x"
proof -
  assume "0 \<le> x"
  then have "0 \<le> \<lfloor>x\<rfloor>"
    by simp
  then show ?thesis
    by (simp add: rne_def Let_def)
qed

lemma rn_nonneg: "0 \<le> x \<Longrightarrow> 0 \<le> rn p x"
proof -
  assume x: "0 \<le> x"
  have "0 \<le> x / int_pow 2 e" for e
    using x int_pow_two_pos [of e] by simp
  then have "0 \<le> rat_of_int (rne (x / int_pow 2 e)) * int_pow 2 e" for e
    using rne_nonneg [of "x / int_pow 2 e"] int_pow_two_pos [of e] by simp
  then show ?thesis
    by (simp add: rn_def Let_def)
qed

lemma isqrt_nonneg: "0 \<le> n \<Longrightarrow> 0 \<le> isqrt n"
proof (induction n rule: isqrt.induct)
  case (1 n)
  show ?case
  proof (cases "n < 2")
    case True
    with "1.prems" show ?thesis
      by (simp add: isqrt.simps)
  next
    case False
    then have "0 \<le> n div 4"
      by simp
    with "1.IH" False have "0 \<le> isqrt (n div 4)"
      by simp
    with False show ?thesis
      by (subst isqrt.simps) (simp add: Let_def)
  qed
qed

lemma rn_sqrt_nonneg: "0 \<le> rn_sqrt p x"
proof (cases "x \<le> 0")
  case True
  then show ?thesis
    by (simp add: rn_sqrt_def)
next
  case False
  define j where "j = (ilog2 x - (2 * int p - 2)) div 2"
  define s where "s = x / int_pow 4 j"
  define n where "n = isqrt \<lfloor>s\<rfloor>"
  have "0 < int_pow 4 j"
    by (simp add: int_pow_def)
  with False have "0 \<le> s"
    by (simp add: s_def)
  then have "0 \<le> \<lfloor>s\<rfloor>"
    by simp
  then have "0 \<le> n"
    unfolding n_def by (rule isqrt_nonneg)
  then have "0 \<le> rat_of_int k * int_pow 2 j" if "k = n \<or> k = n + 1" for k
    using that int_pow_two_pos [of j] by auto
  with False show ?thesis
    by (simp add: rn_sqrt_def Let_def j_def [symmetric] s_def [symmetric] n_def [symmetric])
qed

lemma ieee_nonneg_laws:
  "0 \<le> of_double (fp ieee_platform R) (lit_0_0 ieee_platform)"
  "0 \<le> fmul (fp ieee_platform R) d d"
  "0 \<le> a \<Longrightarrow> 0 \<le> b \<Longrightarrow> 0 \<le> fadd (fp ieee_platform R) a b"
  "0 \<le> a \<Longrightarrow> 0 \<le> fdiv (fp ieee_platform R) a (of_size (fp ieee_platform R) n)"
  "0 \<le> squareroot (fp ieee_platform R) a"
  by (cases R; simp add: ieee_platform_def ieee_arith_def rn_nonneg rn_sqrt_nonneg)+

section \<open>C1: the width of every arithmetic step\<close>

lemma round_num_cong:
  assumes "fp P R = fp Q R"
    and "0 \<le> roundTo \<Longrightarrow> std_pow P (lit_10_0 P) roundTo = std_pow Q (lit_10_0 Q) roundTo"
  shows "round_num P R roundTo num = round_num Q R roundTo num"
  using assms by (simp add: round_num_def)

lemma getline_loop_cong:
  assumes "fp P R = fp Q R"
    and "0 \<le> roundTo \<Longrightarrow> std_pow P (lit_10_0 P) roundTo = std_pow Q (lit_10_0 Q) roundTo"
  shows "getline_loop P R roundTo file_lines intervals
       = getline_loop Q R roundTo file_lines intervals"
proof (induction file_lines arbitrary: intervals)
  case Nil
  show ?case by simp
next
  case (Cons numString rest)
  show ?case
  proof (cases "stringToFP (fp Q R) numString")
    case (Inl e)
    with assms(1) show ?thesis by simp
  next
    case (Inr num)
    with assms(1) Cons.IH round_num_cong [OF assms, of num] show ?thesis
      by simp
  qed
qed

text \<open>
  C1, as the code has it. The result of a calculation for the type \<open>R\<close> is
  determined by the arithmetic of \<open>R\<close> itself and by two values computed in
  \<^verbatim>\<open>double\<close> and converted to \<open>R\<close>: the literal \<^verbatim>\<open>0.0\<close> the sum starts from, and,
  when rounding is requested, the multiplier \<^verbatim>\<open>std::pow(10.0, roundTo)\<close>. Two platforms
  that agree on these give the same output and the same result, whatever the arithmetic
  of the other types is: parsing, the multiplication, \<^verbatim>\<open>round\<close> and the division of
  the rounding step, the differences, the squares, the sum, the division and the square
  root all use the operations of \<open>R\<close>.
\<close>

theorem own_arithmetic_but_multiplier:
  assumes "fp P R = fp Q R"
    and "lit_0_0 P = lit_0_0 Q"
    and "0 \<le> roundTo \<Longrightarrow> std_pow P (lit_10_0 P) roundTo = std_pow Q (lit_10_0 Q) roundTo"
  shows "calculateRMSSD P R fs path roundTo = calculateRMSSD Q R fs path roundTo"
proof -
  have load: "loadIntervals P R fs path roundTo = loadIntervals Q R fs path roundTo"
    using getline_loop_cong [OF assms(1) assms(3)]
    by (simp add: loadIntervals_def split: option.splits)
  show ?thesis
    unfolding calculateRMSSD_def load assms(1) assms(2) by (rule refl)
qed

text \<open>
  The theorem at \<^verbatim>\<open>long double\<close> and three decimal places, on two platforms that
  share the \<^verbatim>\<open>long double\<close> arithmetic and the value of \<open>10\<^sup>3\<close>, and differ in the
  arithmetic of \<^verbatim>\<open>float\<close> and of \<^verbatim>\<open>double\<close> and in \<^verbatim>\<open>std::pow\<close> elsewhere.
\<close>

theorem own_arithmetic_but_multiplier_witness:
  "fp ieee_platform Float \<noteq> fp ieee_platform_narrow Float
   \<and> fp ieee_platform Double \<noteq> fp ieee_platform_narrow Double
   \<and> calculateRMSSD ieee_platform LongDouble
         (\<lambda>_. Some [''1000.0004'', ''1020.0006'', ''1050.3331'']) ''rr'' 3
     = calculateRMSSD ieee_platform_narrow LongDouble
         (\<lambda>_. Some [''1000.0004'', ''1020.0006'', ''1050.3331'']) ''rr'' 3"
proof (intro conjI)
  have "sizeof (fp ieee_platform Float) \<noteq> sizeof (fp ieee_platform_narrow Float)"
    by (simp add: ieee_platform_def ieee_platform_narrow_def ieee_arith_def)
  then show "fp ieee_platform Float \<noteq> fp ieee_platform_narrow Float"
    by auto
  have "sizeof (fp ieee_platform Double) \<noteq> sizeof (fp ieee_platform_narrow Double)"
    by (simp add: ieee_platform_def ieee_platform_narrow_def ieee_arith_def)
  then show "fp ieee_platform Double \<noteq> fp ieee_platform_narrow Double"
    by auto
  have "std_pow ieee_platform (lit_10_0 ieee_platform) 3
      = std_pow ieee_platform_narrow (lit_10_0 ieee_platform_narrow) 3"
    by code_simp
  then show "calculateRMSSD ieee_platform LongDouble
         (\<lambda>_. Some [''1000.0004'', ''1020.0006'', ''1050.3331'']) ''rr'' 3
     = calculateRMSSD ieee_platform_narrow LongDouble
         (\<lambda>_. Some [''1000.0004'', ''1020.0006'', ''1050.3331'']) ''rr'' 3"
    by (intro own_arithmetic_but_multiplier)
       (simp_all add: ieee_platform_def ieee_platform_narrow_def)
qed

text \<open>
  C1 as stated fails: the multiplier is computed in \<^verbatim>\<open>double\<close> and converted. With
  24 decimal places \<^verbatim>\<open>std::pow(10.0, 24)\<close> is the \<^verbatim>\<open>double\<close> nearest to \<open>10\<^sup>2\<^sup>4\<close>,
  999999999999999983222784, although \<^verbatim>\<open>long double\<close> holds \<open>10\<^sup>2\<^sup>4\<close> exactly. The two
  platforms have the same \<^verbatim>\<open>long double\<close> arithmetic, and the loader for
  \<^verbatim>\<open>long double\<close> returns different samples on them for the line \<^verbatim>\<open>1e-24\<close>: the
  product with the multiplier rounds to 1, and 1 divided by the \<^verbatim>\<open>double\<close> is not 1
  divided by \<open>10\<^sup>2\<^sup>4\<close>.
\<close>

theorem multiplier_computed_in_double:
  "fp ieee_platform LongDouble = fp ieee_platform_powl LongDouble
   \<and> std_pow ieee_platform (lit_10_0 ieee_platform) 24 = 999999999999999983222784
   \<and> std_pow ieee_platform_powl (lit_10_0 ieee_platform_powl) 24 = 1000000000000000000000000
   \<and> loadIntervals ieee_platform LongDouble (\<lambda>_. Some [''1e-24'']) ''rr'' 24
       \<noteq> loadIntervals ieee_platform_powl LongDouble (\<lambda>_. Some [''1e-24'']) ''rr'' 24"
proof (intro conjI)
  show "fp ieee_platform LongDouble = fp ieee_platform_powl LongDouble"
    by (simp add: ieee_platform_powl_def)
  show "std_pow ieee_platform (lit_10_0 ieee_platform) 24 = 999999999999999983222784"
    by code_simp
  show "std_pow ieee_platform_powl (lit_10_0 ieee_platform_powl) 24 = 1000000000000000000000000"
    by code_simp
  show "loadIntervals ieee_platform LongDouble (\<lambda>_. Some [''1e-24'']) ''rr'' 24
       \<noteq> loadIntervals ieee_platform_powl LongDouble (\<lambda>_. Some [''1e-24'']) ''rr'' 24"
    by code_simp
qed

section \<open>C2: one failure and the remaining combinations\<close>

lemma calculateRMSSD_Inl_writes_nothing:
  "snd (calculateRMSSD P R fs path roundTo) = Inl e \<Longrightarrow>
   calculateRMSSD P R fs path roundTo = ([], Inl e)"
  by (auto simp: calculateRMSSD_def Let_def split: sum.splits if_splits)

lemma try_block_first_failure:
  assumes "\<forall>(l, r, n)\<in>set pre. \<exists>v. snd (calculateRMSSD P r fs dataFilePath n) = Inr v"
    and "snd (calculateRMSSD P R fs dataFilePath roundTo) = Inl e"
  shows "try_block P fs (pre @ (label, R, roundTo) # post)
       = (fst (try_block P fs pre) @ [Cout_str label, Cout_endl], Some e)
     \<and> snd (try_block P fs pre) = None"
  using assms(1)
proof (induction pre)
  case Nil
  from calculateRMSSD_Inl_writes_nothing [OF assms(2)] show ?case
    by simp
next
  case (Cons c pre)
  obtain l r n where c: "c = (l, r, n)"
    by (cases c) auto
  with Cons.prems obtain v where "snd (calculateRMSSD P r fs dataFilePath n) = Inr v"
    by auto
  then obtain w where w: "calculateRMSSD P r fs dataFilePath n = (w, Inr v)"
    by (cases "calculateRMSSD P r fs dataFilePath n") auto
  from Cons have "try_block P fs (pre @ (label, R, roundTo) # post)
       = (fst (try_block P fs pre) @ [Cout_str label, Cout_endl], Some e)
     \<and> snd (try_block P fs pre) = None"
    by simp
  with c w show ?case
    by (simp add: split_beta)
qed

text \<open>
  C2, as the code has it. The six calls stand in one \<^verbatim>\<open>try\<close> block. When the
  combinations before one have returned and that one throws \<^verbatim>\<open>InvalidArgument\<close>, the
  driver has written the reports of the earlier ones and the label of the failing one;
  the handler writes the error once, and \<^verbatim>\<open>main\<close> asks for a key and returns
  \<^verbatim>\<open>EXIT_SUCCESS\<close>. No later combination is evaluated: what is written does not depend
  on \<open>post\<close>.
\<close>

theorem driver_stops_at_first_failure:
  assumes "combinations = pre @ (label, R, roundTo) # post"
    and "\<forall>(l, r, n)\<in>set pre. \<exists>v. snd (calculateRMSSD P r fs dataFilePath n) = Inr v"
    and "snd (calculateRMSSD P R fs dataFilePath roundTo) = Inl (InvalidArgument errMsg)"
  shows "rmssd_main P fs =
    (fst (try_block P fs pre)
       @ [Cout_str label, Cout_endl, Cerr_str (''ERROR: '' @ errMsg), Cerr_endl]
       @ press_enter,
     Returned EXIT_SUCCESS)"
  using try_block_first_failure [OF assms(2,3), of label post] assms(1)
  by (simp add: rmssd_main_def)

text \<open>
  The theorem for a data file that cannot be opened.
\<close>

theorem driver_stops_at_first_failure_witness:
  "rmssd_main ieee_platform (\<lambda>_. None) =
     ([Cout_str ''float'', Cout_endl,
       Cerr_str (''ERROR: '' @ could_not_open dataFilePath), Cerr_endl] @ press_enter,
      Returned EXIT_SUCCESS)"
proof -
  have "snd (calculateRMSSD ieee_platform Float (\<lambda>_. None) dataFilePath (- 1))
      = Inl (InvalidArgument (could_not_open dataFilePath))"
    by (simp add: calculateRMSSD_def loadIntervals_def)
  from driver_stops_at_first_failure [of "[]" "''float''" Float "- 1" _ ieee_platform, OF _ _ this]
  show ?thesis
    by (simp add: combinations_def)
qed

text \<open>
  C2 as stated fails. For an empty data file the driver evaluates the first
  combination only and reports one error; the labels of the five other combinations are
  never written.
\<close>

theorem empty_source_one_report:
  "rmssd_main ieee_platform (\<lambda>_. Some []) =
     ([Cout_str ''float'', Cout_endl,
       Cerr_str (''ERROR: '' @ too_few), Cerr_endl,
       Cout_str ''Press <enter> to exit'', Cout_endl],
      Returned EXIT_SUCCESS)
   \<and> Cout_str ''double'' \<notin> set (fst (rmssd_main ieee_platform (\<lambda>_. Some [])))"
  by (simp add: rmssd_main_def combinations_def calculateRMSSD_def loadIntervals_def
      press_enter_def)

section \<open>C3: a line that does not parse\<close>

text \<open>
  C3, as the code has it. A line that \<^verbatim>\<open>stringToFP\<close> rejects makes the calculation
  throw the exception of the standard library (\<^verbatim>\<open>std::invalid_argument\<close> or
  \<^verbatim>\<open>std::out_of_range\<close>) before anything is written. It is not an
  \<^verbatim>\<open>InvalidArgument\<close>, so it leaves the \<^verbatim>\<open>try\<close> block and \<^verbatim>\<open>main\<close>: the driver has written
  the reports of the earlier combinations and the label of this one, and evaluates no
  later combination. (What the C++ runtime prints when it terminates is not output of
  the program.)
\<close>

theorem malformed_sample_leaves_driver:
  assumes "combinations = pre @ (label, R, roundTo) # post"
    and "\<forall>(l, r, n)\<in>set pre. \<exists>v. snd (calculateRMSSD P r fs dataFilePath n) = Inr v"
    and "fs dataFilePath = Some file_lines"
    and "numString \<in> set file_lines"
    and "stringToFP (fp P R) numString = Inl e0"
  shows "\<exists>e. calculateRMSSD P R fs dataFilePath roundTo = ([], Inl (StdException e))
    \<and> rmssd_main P fs = (fst (try_block P fs pre) @ [Cout_str label, Cout_endl], Uncaught e)"
proof -
  from getline_loop_malformed [OF assms(5,4)] obtain e where
    "getline_loop P R roundTo file_lines [] = Inl (StdException e)"
    by blast
  with assms(3) have calc: "calculateRMSSD P R fs dataFilePath roundTo = ([], Inl (StdException e))"
    by (simp add: calculateRMSSD_def loadIntervals_def)
  then have "snd (calculateRMSSD P R fs dataFilePath roundTo) = Inl (StdException e)"
    by simp
  from try_block_first_failure [OF assms(2) this, of label post] assms(1)
  have "rmssd_main P fs = (fst (try_block P fs pre) @ [Cout_str label, Cout_endl], Uncaught e)"
    by (simp add: rmssd_main_def)
  with calc show ?thesis
    by blast
qed

text \<open>
  The theorem for a file whose second line is \<^verbatim>\<open>abc\<close>.
\<close>

theorem malformed_sample_leaves_driver_witness:
  "\<exists>e. rmssd_main ieee_platform (\<lambda>_. Some [''1000'', ''abc'']) =
     ([Cout_str ''float'', Cout_endl], Uncaught e)"
proof -
  have "stringToFP (fp ieee_platform Float) ''abc'' = Inl invalid_argument"
    by code_simp
  from malformed_sample_leaves_driver [of "[]" "''float''" Float "- 1" _ ieee_platform
      "\<lambda>_. Some [''1000'', ''abc'']" "[''1000'', ''abc'']" "''abc''", OF _ _ _ _ this]
  show ?thesis
    by (auto simp: combinations_def)
qed

text \<open>
  C3 as stated fails. With the line \<^verbatim>\<open>abc\<close> in the file the driver writes the first
  label and nothing else: no error report, no other combination.
\<close>

theorem malformed_line_not_reported:
  "rmssd_main ieee_platform (\<lambda>_. Some [''1000'', ''1020'', ''abc'', ''1050'']) =
     ([Cout_str ''float'', Cout_endl], Uncaught invalid_argument)"
  by code_simp

section \<open>C4: the formula\<close>

text \<open>
  C4. For a loaded sequence \<open>s\<close> of \<open>n \<ge> 2\<close> samples the result is the square root
  of the mean: the differences \<open>s ! i - s ! (i - 1)\<close> for \<open>i\<close> from \<open>1\<close> to \<open>n - 1\<close>, each
  multiplied by itself, added from the left to \<^verbatim>\<open>static_cast<T>(0.0)\<close>, the zero of the
  type, and the sum divided by \<open>n - 1\<close> converted to the type. There are \<open>n - 1\<close>
  differences.
\<close>

theorem calculateRMSSD_formula:
  assumes "loadIntervals P R fs path roundTo = Inr s" and "2 \<le> length s"
  shows "snd (calculateRMSSD P R fs path roundTo) =
     Inr (squareroot (fp P R)
       (fdiv (fp P R)
          (foldl (fadd (fp P R)) (of_double (fp P R) (lit_0_0 P))
             (map (\<lambda>d. fmul (fp P R) d d)
                (map (\<lambda>i. fsub (fp P R) (s ! i) (s ! (i - 1))) [1..<length s])))
          (of_size (fp P R) (length s - 1))))
     \<and> length (map (\<lambda>i. fsub (fp P R) (s ! i) (s ! (i - 1))) [1..<length s]) = length s - 1"
  using calculateRMSSD_Inr [OF assms] by simp

text \<open>
  The theorem for the lines 1000, 1020, 1000, 1050 in exact arithmetic: the result is
  the square root of 1100.
\<close>

theorem calculateRMSSD_formula_witness:
  "snd (calculateRMSSD exact_platform Double
         (\<lambda>_. Some [''1000'', ''1020'', ''1000'', ''1050'']) ''rr'' (- 1)) = Inr (sqrt 1100)"
  using calculateRMSSD_formula [OF scenario_load]
  by (simp add: exact_sel upt_rec)

section \<open>C5: fewer than two samples\<close>

text \<open>
  C5. When the loader returns fewer than two samples, \<^verbatim>\<open>calculateRMSSD\<close> throws
  \<^verbatim>\<open>InvalidArgument\<close> with the message \<^verbatim>\<open>too few RR intervals to calculate RMSSD\<close>; it
  writes nothing and returns no value. This holds for every type and every platform.
\<close>

theorem too_few_intervals:
  assumes "loadIntervals P R fs path roundTo = Inr s" and "length s < 2"
  shows "calculateRMSSD P R fs path roundTo = ([], Inl (InvalidArgument too_few))"
  using assms by (simp add: calculateRMSSD_def)

text \<open>
  The theorem for a file of one line.
\<close>

theorem too_few_intervals_witness:
  "calculateRMSSD exact_platform Float (\<lambda>_. Some [''1000'']) ''rr'' 3
     = ([], Inl (InvalidArgument too_few))"
proof -
  have "loadIntervals exact_platform Float (\<lambda>_. Some [''1000'']) ''rr'' 3 = Inr [1000]"
    by (simp add: exact_eval c_round_real_def)
  from too_few_intervals [OF this] show ?thesis
    by simp
qed

section \<open>C6: all differences zero\<close>

text \<open>
  C6. \<open>is_zero\<close> is the property of being a zero of the type. In IEEE 754 arithmetic
  \<^verbatim>\<open>static_cast<T>(0.0)\<close> is a zero, the product and the sum of zeros are zeros, a zero
  divided by a positive count is a zero, and the square root of a zero is a zero; these
  are the hypotheses on the arithmetic. Then a sequence of at least two samples whose
  successive differences are all zeros has a zero as its RMSSD.
\<close>

theorem zero_differences_zero_rmssd:
  assumes "loadIntervals P R fs path roundTo = Inr s"
    and "2 \<le> length s"
    and "\<forall>i. 0 < i \<and> i < length s \<longrightarrow> is_zero (fsub (fp P R) (s ! i) (s ! (i - 1)))"
    and "is_zero (of_double (fp P R) (lit_0_0 P))"
    and "\<And>d. is_zero d \<Longrightarrow> is_zero (fmul (fp P R) d d)"
    and "\<And>a b. is_zero a \<Longrightarrow> is_zero b \<Longrightarrow> is_zero (fadd (fp P R) a b)"
    and "\<And>a n. is_zero a \<Longrightarrow> 0 < n \<Longrightarrow> is_zero (fdiv (fp P R) a (of_size (fp P R) n))"
    and "\<And>a. is_zero a \<Longrightarrow> is_zero (squareroot (fp P R) a)"
  shows "\<exists>r. snd (calculateRMSSD P R fs path roundTo) = Inr r \<and> is_zero r"
  using assms(1,2) _ assms(4)
proof (rule rmssd_invariant)
  show "\<forall>i. 0 < i \<and> i < length s \<longrightarrow>
      is_zero (fmul (fp P R) (fsub (fp P R) (s ! i) (s ! (i - 1)))
                 (fsub (fp P R) (s ! i) (s ! (i - 1))))"
    using assms(3,5) by blast
qed (use assms(6-8) in blast)+

text \<open>
  The theorem for the lines 2.0, 2.0, 2.0 in binary32.
\<close>

theorem zero_differences_zero_rmssd_witness:
  "snd (calculateRMSSD ieee_platform Float (\<lambda>_. Some [''2.0'', ''2.0'', ''2.0'']) ''rr'' (- 1))
     = Inr 0"
proof -
  have load: "loadIntervals ieee_platform Float (\<lambda>_. Some [''2.0'', ''2.0'', ''2.0'']) ''rr'' (- 1)
      = Inr [2, 2, 2]"
    by code_simp
  have same: "[2, 2, 2 :: rat] ! i = 2" if "i < 3" for i
    using that by (cases i rule: nat.exhaust; simp add: nth_Cons split: nat.splits)
  have diffs_zero: "\<forall>i. 0 < i \<and> i < length [2, 2, 2 :: rat] \<longrightarrow>
      fsub (fp ieee_platform Float) ([2, 2, 2] ! i) ([2, 2, 2] ! (i - 1)) = 0"
  proof (intro allI impI)
    fix i :: nat
    assume "0 < i \<and> i < length [2, 2, 2 :: rat]"
    then have "i < 3" "i - 1 < 3"
      by (simp_all, arith)
    then have "[2, 2, 2 :: rat] ! i = 2" "[2, 2, 2 :: rat] ! (i - 1) = 2"
      by (simp_all only: same)
    then show "fsub (fp ieee_platform Float) ([2, 2, 2] ! i) ([2, 2, 2] ! (i - 1)) = 0"
      by (simp add: ieee_sel rn_def)
  qed
  from zero_differences_zero_rmssd [of ieee_platform Float _ _ _ _ "\<lambda>x. x = 0", OF load _ diffs_zero]
  show ?thesis
    by (simp add: ieee_sel rn_def rn_sqrt_def)
qed

section \<open>C7: rounding twice\<close>

text \<open>
  The error of rounding to \<open>p\<close> bits is at most the value divided by \<open>2\<^sup>p\<close>.
\<close>

lemma int_pow_powi: "int_pow x n = x powi n"
  by (simp add: int_pow_def power_int_def inverse_eq_divide power_one_over)

lemma bit_length_bounds:
  "0 < n \<Longrightarrow> \<exists>k::nat. bit_length n = int k + 1 \<and> 2 ^ k \<le> n \<and> n < 2 ^ (k + 1)"
proof (induction n rule: bit_length.induct)
  case (1 n)
  show ?case
  proof (cases "n = 1")
    case True
    have "bit_length 1 = 1"
      by (simp add: bit_length.simps)
    with True show ?thesis
      by (intro exI [of _ 0]) simp
  next
    case False
    with "1.prems" have half: "0 < n div 2"
      by simp
    with "1.IH" "1.prems" obtain k :: nat where
      k: "bit_length (n div 2) = int k + 1" "2 ^ k \<le> n div 2" "n div 2 < 2 ^ (k + 1)"
      by auto
    have "bit_length n = 1 + bit_length (n div 2)"
      using "1.prems" by (subst bit_length.simps) simp
    with k(1) have "bit_length n = int (k + 1) + 1"
      by simp
    moreover from k(2) have "2 ^ (k + 1) \<le> n"
      by simp
    moreover from k(3) have "n < 2 ^ (k + 1 + 1)"
      by simp
    ultimately show ?thesis
      by blast
  qed
qed

lemma ilog2_bounds:
  assumes "0 < x"
  shows "2 powi (ilog2 x) \<le> x \<and> x < 2 powi (ilog2 x + 1)"
proof (cases "1 \<le> x")
  case True
  then have "0 < \<lfloor>x\<rfloor>"
    by simp
  from bit_length_bounds [OF this] obtain k :: nat where
    k: "bit_length \<lfloor>x\<rfloor> = int k + 1" "2 ^ k \<le> \<lfloor>x\<rfloor>" "\<lfloor>x\<rfloor> < 2 ^ (k + 1)"
    by blast
  from True k(1) have il: "ilog2 x = int k"
    by (simp add: ilog2_def)
  from k(2) have "rat_of_int (2 ^ k) \<le> rat_of_int \<lfloor>x\<rfloor>"
    by (simp only: of_int_le_iff)
  also have "rat_of_int \<lfloor>x\<rfloor> \<le> x"
    by (rule of_int_floor_le)
  finally have lo: "2 ^ k \<le> x"
    by simp
  from k(3) have "\<lfloor>x\<rfloor> + 1 \<le> 2 ^ (k + 1)"
    by simp
  then have "rat_of_int (\<lfloor>x\<rfloor> + 1) \<le> rat_of_int (2 ^ (k + 1))"
    by (simp only: of_int_le_iff)
  with less_le_trans [of x "rat_of_int (\<lfloor>x\<rfloor> + 1)" "rat_of_int (2 ^ (k + 1))"]
  have "x < rat_of_int (2 ^ (k + 1))"
    by linarith
  then have hi: "x < 2 ^ (k + 1)"
    by simp
  have "(2::rat) powi (int k) = 2 ^ k" "(2::rat) powi (int k + 1) = 2 ^ (k + 1)"
    by (simp_all add: power_int_add)
  with il lo hi show ?thesis
    by simp
next
  case False
  with assms have y: "1 < 1 / x"
    by simp
  then have "0 < \<lceil>1 / x\<rceil> - 1"
    by linarith
  from bit_length_bounds [OF this] obtain k :: nat where
    k: "bit_length (\<lceil>1 / x\<rceil> - 1) = int k + 1" "2 ^ k \<le> \<lceil>1 / x\<rceil> - 1"
       "\<lceil>1 / x\<rceil> - 1 < 2 ^ (k + 1)"
    by blast
  from False k(1) have il: "ilog2 x = - (int k + 1)"
    by (simp add: ilog2_def)
  from k(3) have "\<lceil>1 / x\<rceil> \<le> 2 ^ (k + 1)"
    by simp
  then have "rat_of_int \<lceil>1 / x\<rceil> \<le> rat_of_int (2 ^ (k + 1))"
    by (simp only: of_int_le_iff)
  with le_of_int_ceiling [of "1 / x"] have "1 / x \<le> rat_of_int (2 ^ (k + 1))"
    by (rule order_trans)
  then have "1 / x \<le> 2 ^ (k + 1)"
    by simp
  with assms have lo: "1 / 2 ^ (k + 1) \<le> x"
    by (simp add: field_simps)
  from k(2) have "rat_of_int (2 ^ k) \<le> rat_of_int (\<lceil>1 / x\<rceil> - 1)"
    by (simp only: of_int_le_iff)
  also have "rat_of_int (\<lceil>1 / x\<rceil> - 1) < 1 / x"
    by linarith
  finally have "2 ^ k < 1 / x"
    by simp
  with assms have hi: "x < 1 / 2 ^ k"
    by (simp add: field_simps)
  have "(2::rat) powi (- (int k + 1)) = 1 / 2 ^ (k + 1)"
    by (simp add: power_int_def inverse_eq_divide power_one_over nat_add_distrib)
  moreover have "(2::rat) powi (- (int k + 1) + 1) = 1 / 2 ^ k"
    by (simp add: power_int_def inverse_eq_divide power_one_over)
  ultimately show ?thesis
    using il lo hi by simp
qed

lemma rne_error: "\<bar>rat_of_int (rne y) - y\<bar> \<le> 1 / 2"
proof -
  have "rat_of_int \<lfloor>y\<rfloor> \<le> y" "y < rat_of_int \<lfloor>y\<rfloor> + 1"
    by linarith+
  then show ?thesis
    by (auto simp: rne_def Let_def abs_le_iff)
qed

lemma rn_error: "\<bar>rn p x - x\<bar> \<le> \<bar>x\<bar> / 2 ^ p"
proof (cases "x = 0")
  case True
  then show ?thesis by (simp add: rn_def)
next
  case False
  define e where "e = ilog2 \<bar>x\<bar> - (int p - 1)"
  define s :: rat where "s = 2 powi e"
  have s: "0 < s"
    by (simp add: s_def)
  have rn: "rn p x = rat_of_int (rne (x / s)) * s"
    using False by (simp add: rn_def Let_def e_def s_def int_pow_powi)
  have "rn p x - x = (rat_of_int (rne (x / s)) - x / s) * s"
    using s by (simp add: rn field_simps)
  then have "\<bar>rn p x - x\<bar> = \<bar>rat_of_int (rne (x / s)) - x / s\<bar> * s"
    using s by (simp add: abs_mult)
  also have "\<dots> \<le> 1 / 2 * s"
    using rne_error [of "x / s"] s by (intro mult_right_mono) simp_all
  also have "1 / 2 * s = 2 powi (ilog2 \<bar>x\<bar>) / 2 ^ p"
  proof -
    have "s = 2 powi (ilog2 \<bar>x\<bar>) / 2 powi (int p - 1)"
      unfolding s_def e_def by (rule power_int_diff) simp
    moreover have "(2::rat) powi (int p - 1) = 2 powi (int p) / 2 powi 1"
      by (rule power_int_diff) simp
    ultimately show ?thesis
      by simp
  qed
  also have "\<dots> \<le> \<bar>x\<bar> / 2 ^ p"
    using ilog2_bounds [of "\<bar>x\<bar>"] False by (simp add: divide_right_mono)
  finally show ?thesis .
qed

text \<open>
  \<^verbatim>\<open>round\<close> returns an integer, and the integer \<open>k\<close> for every argument less than one
  half away from \<open>k\<close>. Dividing an integer \<open>k\<close> below \<open>2\<^sup>p\<^sup>-\<^sup>2\<close> in magnitude by the
  multiplier and multiplying the quotient by it again, each rounded to \<open>p\<close> bits, gives a
  value less than one half away from \<open>k\<close>.
\<close>

lemma c_round_near:
  assumes "\<bar>t - rat_of_int k\<bar> < 1 / 2"
  shows "c_round t = rat_of_int k"
proof -
  from assms have lo: "rat_of_int k - 1 / 2 < t" and hi: "t < rat_of_int k + 1 / 2"
    by linarith+
  show ?thesis
  proof (cases "0 \<le> t")
    case True
    have "\<lfloor>t + 1 / 2\<rfloor> = k"
    proof (rule floor_unique)
      from lo show "rat_of_int k \<le> t + 1 / 2" by linarith
      from hi show "t + 1 / 2 < rat_of_int k + 1" by linarith
    qed
    with True show ?thesis
      by (simp add: c_round_def)
  next
    case False
    have "\<lfloor>- t + 1 / 2\<rfloor> = - k"
    proof (rule floor_unique)
      from hi show "rat_of_int (- k) \<le> - t + 1 / 2" by simp
      from lo show "- t + 1 / 2 < rat_of_int (- k) + 1" by simp
    qed
    with False show ?thesis
      by (simp add: c_round_def)
  qed
qed

lemma c_round_integer: "\<exists>k. c_round x = rat_of_int k"
  by (cases "0 \<le> x") (simp_all add: c_round_def, metis of_int_minus)

lemma round_trip:
  assumes p: "2 \<le> p" and k: "\<bar>rat_of_int k\<bar> < 2 ^ (p - 2)" and m: "m \<noteq> 0"
  shows "c_round (rn p (rn p (rat_of_int k / m) * m)) = rat_of_int k"
proof (rule c_round_near)
  define K :: rat where "K = \<bar>rat_of_int k\<bar>"
  define W :: rat where "W = 2 ^ (p - 2)"
  define u :: rat where "u = 1 / 2 ^ p"
  define y where "y = rn p (rat_of_int k / m)"
  have W: "1 \<le> W"
    by (simp add: W_def)
  from p have "p = (p - 2) + 2"
    by simp
  then have "(2::rat) ^ p = 2 ^ (p - 2) * 2 ^ 2"
    by (metis power_add)
  then have u: "u = 1 / (4 * W)"
    by (simp add: u_def W_def)
  have K0: "0 \<le> K"
    by (simp add: K_def)
  have "rat_of_int \<bar>k\<bar> < rat_of_int (2 ^ (p - 2))"
    using k by simp
  then have "\<bar>k\<bar> < 2 ^ (p - 2)"
    by (simp only: of_int_less_iff)
  then have "\<bar>k\<bar> + 1 \<le> 2 ^ (p - 2)"
    by simp
  then have "rat_of_int (\<bar>k\<bar> + 1) \<le> rat_of_int (2 ^ (p - 2))"
    by (simp only: of_int_le_iff)
  then have KW: "K \<le> W - 1"
    by (simp add: K_def W_def)
  have "\<bar>y - rat_of_int k / m\<bar> \<le> \<bar>rat_of_int k / m\<bar> * u"
    using rn_error [of p "rat_of_int k / m"] by (simp add: y_def u_def)
  then have "\<bar>y - rat_of_int k / m\<bar> * \<bar>m\<bar> \<le> \<bar>rat_of_int k / m\<bar> * u * \<bar>m\<bar>"
    by (intro mult_right_mono) simp_all
  moreover have "\<bar>y - rat_of_int k / m\<bar> * \<bar>m\<bar> = \<bar>y * m - rat_of_int k\<bar>"
    using m by (simp add: abs_mult [symmetric] left_diff_distrib)
  moreover have "\<bar>rat_of_int k / m\<bar> * u * \<bar>m\<bar> = K * u"
    using m by (simp add: K_def abs_divide)
  ultimately have e1: "\<bar>y * m - rat_of_int k\<bar> \<le> K * u"
    by simp
  then have ym: "\<bar>y * m\<bar> \<le> K + K * u"
    unfolding K_def by linarith
  have u0: "0 \<le> u"
    by (simp add: u_def)
  have "\<bar>rn p (y * m) - y * m\<bar> \<le> \<bar>y * m\<bar> * u"
    using rn_error [of p "y * m"] by (simp add: u_def)
  also have "\<dots> \<le> (K + K * u) * u"
    using ym u0 by (rule mult_right_mono)
  finally have e2: "\<bar>rn p (y * m) - y * m\<bar> \<le> (K + K * u) * u" .
  have "\<bar>rn p (y * m) - rat_of_int k\<bar> \<le> K * u + (K + K * u) * u"
    using e1 e2 by linarith
  also have "\<dots> = K * (2 * u + u * u)"
    by (simp add: algebra_simps)
  also have "\<dots> \<le> (W - 1) * (2 * u + u * u)"
    using KW u0 by (intro mult_right_mono) simp_all
  also have "\<dots> < 1 / 2"
  proof -
    from W have "(W - 1) * (2 * u + u * u) = 1 / 2 - (7 * W + 1) / (16 * W * W)"
      by (simp add: u field_simps)
    moreover from W have "0 < (7 * W + 1) / (16 * W * W)"
      by simp
    ultimately show ?thesis
      by linarith
  qed
  finally show "\<bar>rn p (rn p (rat_of_int k / m) * m) - rat_of_int k\<bar> < 1 / 2"
    by (simp add: y_def)
qed

lemma ieee_round_num:
  assumes "fp P R = ieee_arith p emax sz"
  shows "round_num P R roundTo x =
    (if 0 \<le> roundTo then
       rn p (c_round (rn p (x * rn p (std_pow P (lit_10_0 P) roundTo)))
             / rn p (std_pow P (lit_10_0 P) roundTo))
     else x)"
  by (simp add: round_num_def assms ieee_arith_def Let_def)

lemma ieee_round_num_idem:
  assumes fp: "fp P R = ieee_arith p emax sz" and p: "2 \<le> p"
    and small: "0 \<le> roundTo \<Longrightarrow>
      \<bar>fround (fp P R) (fmul (fp P R) x (of_double (fp P R) (std_pow P (lit_10_0 P) roundTo)))\<bar>
        < 2 ^ (p - 2)"
  shows "round_num P R roundTo (round_num P R roundTo x) = round_num P R roundTo x"
proof (cases "0 \<le> roundTo")
  case False
  then show ?thesis
    by (simp add: round_num_def)
next
  case True
  define m where "m = rn p (std_pow P (lit_10_0 P) roundTo)"
  have rnum: "round_num P R roundTo z = rn p (c_round (rn p (z * m)) / m)" for z
    using True unfolding m_def by (simp add: ieee_round_num [OF fp])
  obtain k where k: "c_round (rn p (x * m)) = rat_of_int k"
    using c_round_integer by blast
  have "fround (fp P R) (fmul (fp P R) x (of_double (fp P R) (std_pow P (lit_10_0 P) roundTo)))
      = c_round (rn p (x * m))"
    unfolding m_def by (simp add: fp ieee_arith_def)
  with small [OF True] k have ksmall: "\<bar>rat_of_int k\<bar> < 2 ^ (p - 2)"
    by (simp only:)
  have rx: "round_num P R roundTo x = rn p (rat_of_int k / m)"
    by (simp only: rnum k)
  show ?thesis
  proof (cases "m = 0")
    case True
    have "c_round 0 = 0"
      using c_round_near [of 0 0] by simp
    with True show ?thesis
      by (simp add: rnum rn_def)
  next
    case False
    from round_trip [OF p ksmall False]
    have "round_num P R roundTo (rn p (rat_of_int k / m)) = rn p (rat_of_int k / m)"
      by (simp only: rnum)
    with rx show ?thesis
      by (simp only:)
  qed
qed

text \<open>
  C7, as the code has it. In binary floating point with \<open>p\<close> significant bits and
  round to nearest (\<open>p\<close> is 24 for \<^verbatim>\<open>float\<close>, 53 for \<^verbatim>\<open>double\<close>, 64 for
  \<^verbatim>\<open>long double\<close>), rounding again leaves a rounded sequence unchanged for every number
  of decimal places, provided that for each value of the sequence the integer
  \<^verbatim>\<open>round(value * multiplier)\<close> is below \<open>2\<^sup>p\<^sup>-\<^sup>2\<close> in magnitude. For \<^verbatim>\<open>float\<close> and three
  decimal places these are the values up to 4194.303. When \<open>roundTo\<close> is negative
  nothing is rounded and the condition is not needed.
\<close>

theorem rounding_idempotent_below_bound:
  assumes "fp P R = ieee_arith p emax sz" and "2 \<le> p"
    and "0 \<le> roundTo \<Longrightarrow>
      \<forall>x\<in>set xs.
        \<bar>fround (fp P R) (fmul (fp P R) x (of_double (fp P R) (std_pow P (lit_10_0 P) roundTo)))\<bar>
          < 2 ^ (p - 2)"
  shows "map (round_num P R roundTo) (map (round_num P R roundTo) xs)
       = map (round_num P R roundTo) xs"
proof -
  have "round_num P R roundTo (round_num P R roundTo x) = round_num P R roundTo x"
    if "x \<in> set xs" for x
    using assms(1,2)
  proof (rule ieee_round_num_idem)
    assume "0 \<le> roundTo"
    with assms(3) that show
      "\<bar>fround (fp P R) (fmul (fp P R) x (of_double (fp P R) (std_pow P (lit_10_0 P) roundTo)))\<bar>
        < 2 ^ (p - 2)"
      by blast
  qed
  then show ?thesis
    by simp
qed

text \<open>
  The theorem for three decimal places in \<^verbatim>\<open>float\<close>, \<^verbatim>\<open>double\<close> and
  \<^verbatim>\<open>long double\<close>.
\<close>

theorem rounding_idempotent_below_bound_witness:
  "map (round_num ieee_platform Float 3)
     (map (round_num ieee_platform Float 3) [1234.5678, 812.3456, 4194.303])
   = map (round_num ieee_platform Float 3) [1234.5678, 812.3456, 4194.303]
   \<and> map (round_num ieee_platform Double 3)
     (map (round_num ieee_platform Double 3) [1234.5678, 8229.3623046875])
   = map (round_num ieee_platform Double 3) [1234.5678, 8229.3623046875]
   \<and> map (round_num ieee_platform LongDouble 3)
     (map (round_num ieee_platform LongDouble 3) [1234.5678, 8229.3623046875])
   = map (round_num ieee_platform LongDouble 3) [1234.5678, 8229.3623046875]"
proof (intro conjI)
  show "map (round_num ieee_platform Float 3)
     (map (round_num ieee_platform Float 3) [1234.5678, 812.3456, 4194.303])
   = map (round_num ieee_platform Float 3) [1234.5678, 812.3456, 4194.303]"
  proof (rule rounding_idempotent_below_bound [of _ _ 24 127 4])
    show "fp ieee_platform Float = ieee_arith 24 127 4"
      by (simp add: ieee_platform_def)
    show "2 \<le> (24::nat)"
      by simp
    show "\<forall>x\<in>set [1234.5678, 812.3456, 4194.303].
        \<bar>fround (fp ieee_platform Float) (fmul (fp ieee_platform Float) x
           (of_double (fp ieee_platform Float)
              (std_pow ieee_platform (lit_10_0 ieee_platform) 3)))\<bar>
          < 2 ^ (24 - 2)"
      by code_simp
  qed
  show "map (round_num ieee_platform Double 3)
     (map (round_num ieee_platform Double 3) [1234.5678, 8229.3623046875])
   = map (round_num ieee_platform Double 3) [1234.5678, 8229.3623046875]"
  proof (rule rounding_idempotent_below_bound [of _ _ 53 1023 8])
    show "fp ieee_platform Double = ieee_arith 53 1023 8"
      by (simp add: ieee_platform_def)
    show "2 \<le> (53::nat)"
      by simp
    show "\<forall>x\<in>set [1234.5678, 8229.3623046875].
        \<bar>fround (fp ieee_platform Double) (fmul (fp ieee_platform Double) x
           (of_double (fp ieee_platform Double)
              (std_pow ieee_platform (lit_10_0 ieee_platform) 3)))\<bar>
          < 2 ^ (53 - 2)"
      by code_simp
  qed
  show "map (round_num ieee_platform LongDouble 3)
     (map (round_num ieee_platform LongDouble 3) [1234.5678, 8229.3623046875])
   = map (round_num ieee_platform LongDouble 3) [1234.5678, 8229.3623046875]"
  proof (rule rounding_idempotent_below_bound [of _ _ 64 16383 16])
    show "fp ieee_platform LongDouble = ieee_arith 64 16383 16"
      by (simp add: ieee_platform_def)
    show "2 \<le> (64::nat)"
      by simp
    show "\<forall>x\<in>set [1234.5678, 8229.3623046875].
        \<bar>fround (fp ieee_platform LongDouble) (fmul (fp ieee_platform LongDouble) x
           (of_double (fp ieee_platform LongDouble)
              (std_pow ieee_platform (lit_10_0 ieee_platform) 3)))\<bar>
          < 2 ^ (64 - 2)"
      by code_simp
  qed
qed

text \<open>
  C7 as stated fails in binary32 with three decimal places, the rounding the driver
  asks for, above that bound. The \<^verbatim>\<open>float\<close> 8229.3623046875 is rounded to
  8229.36328125, and rounding that value again gives 8229.3642578125: the quotient of
  8229363 by 1000 is not a \<^verbatim>\<open>float\<close>, and multiplying the nearest \<^verbatim>\<open>float\<close> by 1000
  gives 8229363.5, which \<^verbatim>\<open>round\<close> takes to 8229364.
\<close>

theorem rounding_not_idempotent_binary32:
  "round_num ieee_platform Float 3 8229.3623046875 = 8229.36328125
   \<and> round_num ieee_platform Float 3 8229.36328125 = 8229.3642578125
   \<and> map (round_num ieee_platform Float 3) (map (round_num ieee_platform Float 3) [8229.3623046875])
       \<noteq> map (round_num ieee_platform Float 3) [8229.3623046875]"
  by code_simp

section \<open>C8: the result is not negative\<close>

text \<open>
  C8. \<open>finite_value\<close> is the property of being a finite number and \<open>nonneg\<close> of
  being greater than or equal to zero (\<open>+\<infinity>\<close> included, NaN excluded). In IEEE 754
  arithmetic \<^verbatim>\<open>static_cast<T>(0.0)\<close> is not negative, the square of the difference of
  two finite values is not negative (it may overflow to \<open>+\<infinity>\<close>), and neither are the sum
  of two values that are not negative, the quotient of such a value by a positive count,
  and its square root; these are the hypotheses on the arithmetic. Then the RMSSD of at
  least two finite samples is returned and is not negative.
\<close>

theorem rmssd_nonnegative:
  assumes "loadIntervals P R fs path roundTo = Inr s"
    and "2 \<le> length s"
    and "\<forall>x\<in>set s. finite_value x"
    and "nonneg (of_double (fp P R) (lit_0_0 P))"
    and "\<And>a b. finite_value a \<Longrightarrow> finite_value b \<Longrightarrow>
           nonneg (fmul (fp P R) (fsub (fp P R) a b) (fsub (fp P R) a b))"
    and "\<And>a b. nonneg a \<Longrightarrow> nonneg b \<Longrightarrow> nonneg (fadd (fp P R) a b)"
    and "\<And>a n. nonneg a \<Longrightarrow> 0 < n \<Longrightarrow> nonneg (fdiv (fp P R) a (of_size (fp P R) n))"
    and "\<And>a. nonneg a \<Longrightarrow> nonneg (squareroot (fp P R) a)"
  shows "\<exists>r. snd (calculateRMSSD P R fs path roundTo) = Inr r \<and> nonneg r"
  using assms(1,2) _ assms(4)
proof (rule rmssd_invariant)
  show "\<forall>i. 0 < i \<and> i < length s \<longrightarrow>
      nonneg (fmul (fp P R) (fsub (fp P R) (s ! i) (s ! (i - 1)))
                 (fsub (fp P R) (s ! i) (s ! (i - 1))))"
  proof (intro allI impI)
    fix i
    assume "0 < i \<and> i < length s"
    then have "i < length s" "i - 1 < length s"
      by arith+
    then have "s ! i \<in> set s" "s ! (i - 1) \<in> set s"
      by (simp_all only: nth_mem)
    with assms(3) have "finite_value (s ! i)" "finite_value (s ! (i - 1))"
      by blast+
    then show "nonneg (fmul (fp P R) (fsub (fp P R) (s ! i) (s ! (i - 1)))
                 (fsub (fp P R) (s ! i) (s ! (i - 1))))"
      by (rule assms(5))
  qed
qed (use assms(6-8) in blast)+

text \<open>
  The theorem in binary32 for the lines 1000, 1020.5, 1000, 1050, rounded to three
  decimal places.
\<close>

theorem rmssd_nonnegative_witness:
  "\<exists>r. snd (calculateRMSSD ieee_platform Float
         (\<lambda>_. Some [''1000'', ''1020.5'', ''1000'', ''1050'']) ''rr'' 3) = Inr r \<and> 0 \<le> r"
proof -
  have load: "loadIntervals ieee_platform Float
      (\<lambda>_. Some [''1000'', ''1020.5'', ''1000'', ''1050'']) ''rr'' 3 = Inr [1000, 1020.5, 1000, 1050]"
    by code_simp
  from rmssd_nonnegative [of ieee_platform Float _ _ _ _ "\<lambda>_. True" "\<lambda>x. 0 \<le> x", OF load]
  show ?thesis
    by (simp add: ieee_nonneg_laws)
qed

section \<open>C9: one sample per line, in order\<close>

text \<open>
  C9. When the file can be opened and every line parses, to the values \<open>nums\<close> in
  the order of the lines, the loader returns the rounding of each of these values, in
  the same order: one sample per line.
\<close>

theorem loadIntervals_line_order:
  assumes "fs path = Some file_lines"
    and "map (stringToFP (fp P R)) file_lines = map Inr nums"
  shows "loadIntervals P R fs path roundTo = Inr (map (round_num P R roundTo) nums)
    \<and> length (map (round_num P R roundTo) nums) = length file_lines"
proof -
  from assms(2) have "length file_lines = length nums"
    by (metis length_map)
  with assms getline_loop_parsed [of P R file_lines nums roundTo "[]"] show ?thesis
    by (simp add: loadIntervals_def)
qed

text \<open>
  The theorem for the lines 3, 1, 2.
\<close>

theorem loadIntervals_line_order_witness:
  "loadIntervals exact_platform LongDouble (\<lambda>_. Some [''3'', ''1'', ''2'']) ''rr'' (- 1)
     = Inr [3, 1, 2]"
proof -
  have "map (stringToFP (fp exact_platform LongDouble)) [''3'', ''1'', ''2'']
      = map Inr [3, 1, 2]"
    by (simp add: exact_eval)
  from loadIntervals_line_order [OF _ this, of "\<lambda>_. Some [''3'', ''1'', ''2'']" "''rr''" "- 1"]
  show ?thesis
    by (simp add: round_num_def)
qed

section \<open>C10: a negative number of decimal places\<close>

lemma round_num_negative: "roundTo < 0 \<Longrightarrow> round_num P R roundTo num = num"
  by (simp add: round_num_def)

lemma getline_loop_negative:
  assumes "roundTo < 0"
  shows "getline_loop P R roundTo file_lines intervals
     = getline_loop P R (- 1) file_lines intervals"
proof (induction file_lines arbitrary: intervals)
  case Nil
  show ?case by simp
next
  case (Cons numString rest)
  show ?case
  proof (cases "stringToFP (fp P R) numString")
    case (Inl e)
    then show ?thesis by simp
  next
    case (Inr num)
    have "round_num P R roundTo num = num" "round_num P R (- 1) num = num"
      using assms by (simp_all add: round_num_def)
    with Inr Cons.IH [of "intervals @ [num]"] show ?thesis
      by simp
  qed
qed

text \<open>
  C10. For every negative \<^verbatim>\<open>roundTo\<close> the loader does what it does for \<open>-1\<close>, and
  every sample it returns is the value \<^verbatim>\<open>stringToFP\<close> returned for its line.
\<close>

theorem negative_roundTo_no_rounding:
  assumes "roundTo < 0"
  shows "loadIntervals P R fs path roundTo = loadIntervals P R fs path (- 1)
    \<and> (\<forall>s. loadIntervals P R fs path roundTo = Inr s \<longrightarrow>
          (\<exists>file_lines. fs path = Some file_lines
             \<and> map (stringToFP (fp P R)) file_lines = map Inr s))"
proof (intro conjI allI impI)
  show "loadIntervals P R fs path roundTo = loadIntervals P R fs path (- 1)"
    by (simp add: loadIntervals_def getline_loop_negative [OF assms] split: option.splits)
next
  fix s
  assume load: "loadIntervals P R fs path roundTo = Inr s"
  then obtain file_lines where fl: "fs path = Some file_lines"
    by (cases "fs path") (auto simp: loadIntervals_def)
  with load have "getline_loop P R roundTo file_lines [] = Inr s"
    by (simp add: loadIntervals_def)
  from getline_loop_Inr [OF this] obtain nums where
    "map (stringToFP (fp P R)) file_lines = map Inr nums"
    "s = map (round_num P R roundTo) nums"
    by auto
  with assms have "map (stringToFP (fp P R)) file_lines = map Inr s"
    by (simp add: round_num_negative)
  with fl show "\<exists>file_lines. fs path = Some file_lines
      \<and> map (stringToFP (fp P R)) file_lines = map Inr s"
    by blast
qed

text \<open>
  The theorem for \<open>roundTo = -7\<close>.
\<close>

theorem negative_roundTo_no_rounding_witness:
  "loadIntervals exact_platform Float (\<lambda>_. Some [''0.5'', ''1.25'']) ''rr'' (- 7)
     = loadIntervals exact_platform Float (\<lambda>_. Some [''0.5'', ''1.25'']) ''rr'' (- 1)"
  using negative_roundTo_no_rounding [of "- 7" exact_platform Float "\<lambda>_. Some [''0.5'', ''1.25'']" "''rr''"]
  by simp

end
